theory Spec2Isabelle
  imports Complex_Main
begin

section \<open>Numbers and vectors\<close>

text \<open>
  The program is TypeScript; its \<^verbatim>\<open>number\<close> values are modelled as \<^typ>\<open>real\<close>, that is,
  as finite numbers with exact arithmetic.  \<^verbatim>\<open>NaN\<close>, the infinities and the rounding of
  IEEE doubles are outside this model.
\<close>

text \<open>
  The remainder operator \<^verbatim>\<open>a % b\<close> of JavaScript on finite numbers: the result is
  \<open>a - b * q\<close> where \<open>q\<close> is the quotient \<open>a / b\<close> truncated towards zero, so it has
  the sign of the dividend.  (For \<open>b = 0\<close> JavaScript yields \<^verbatim>\<open>NaN\<close>; the engine never
  divides by a zero interval, see \<open>Engine_constructor\<close>.)
\<close>

definition js_trunc :: "real \<Rightarrow> int" where
  "js_trunc q = (if 0 \<le> q then \<lfloor>q\<rfloor> else \<lceil>q\<rceil>)"

definition js_rem :: "real \<Rightarrow> real \<Rightarrow> real" where
  "js_rem a b = a - b * of_int (js_trunc (a / b))"

text \<open>
  \<^verbatim>\<open>THREE.Vector3\<close>, with \<^verbatim>\<open>distanceTo\<close> as the library defines it: the square root of
  the sum of the squared coordinate differences.
\<close>

datatype Vector3 = Vector3 (vec_x: real) (vec_y: real) (vec_z: real)

definition distanceToSquared :: "Vector3 \<Rightarrow> Vector3 \<Rightarrow> real" where
  "distanceToSquared a b =
     (let dx = vec_x a - vec_x b; dy = vec_y a - vec_y b; dz = vec_z a - vec_z b
      in dx * dx + dy * dy + dz * dz)"

definition distanceTo :: "Vector3 \<Rightarrow> Vector3 \<Rightarrow> real" where
  "distanceTo a b = sqrt (distanceToSquared a b)"

section \<open>Platform.ts\<close>

record PlatformConfig =
  position :: Vector3
  size_v :: Vector3
  color :: "nat option"
  visible :: "bool option"

record Bounds =
  bounds_min :: Vector3
  bounds_max :: Vector3

text \<open>
  The constructor computes the bounds once; the mesh it may add to the scene plays no
  part in them.  A platform is represented by the one field the bounds queries read.
\<close>

record Platform =
  bounds :: Bounds

definition Platform_constructor :: "PlatformConfig \<Rightarrow> Platform" where
  "Platform_constructor config =
     \<lparr> bounds =
         \<lparr> bounds_min = Vector3
             (vec_x (position config) - vec_x (size_v config) / 2)
             (vec_y (position config) - vec_y (size_v config) / 2)
             (vec_z (position config) - vec_z (size_v config) / 2),
           bounds_max = Vector3
             (vec_x (position config) + vec_x (size_v config) / 2)
             (vec_y (position config) + vec_y (size_v config) / 2)
             (vec_z (position config) + vec_z (size_v config) / 2) \<rparr> \<rparr>"

definition getBounds :: "Platform \<Rightarrow> Bounds" where
  "getBounds p = bounds p"

section \<open>Customer.ts\<close>

text \<open>The members of the enum \<^verbatim>\<open>IngredientType\<close> that the customer's colour table lists.\<close>

datatype IngredientType = LETTUCE | BACON | CHEESE | TOMATO | PICKLE | ONION

record CustomerOrder =
  ingredients :: "IngredientType list"

record Customer =
  cust_position :: Vector3
  order :: CustomerOrder
  orderFulfilled :: bool
  interactionRadius :: real

definition Customer_constructor :: "Vector3 \<Rightarrow> CustomerOrder \<Rightarrow> Customer" where
  "Customer_constructor pos ord =
     \<lparr> cust_position = pos, order = ord, orderFulfilled = False, interactionRadius = 5 / 2 \<rparr>"

definition checkInteraction :: "Customer \<Rightarrow> Vector3 \<Rightarrow> bool" where
  "checkInteraction c playerPosition =
     (if orderFulfilled c then False
      else let distance = distanceTo (cust_position c) playerPosition
           in distance < interactionRadius c)"

text \<open>
  Reading a JavaScript array at an index: \<^verbatim>\<open>undefined\<close> (here \<open>None\<close>) outside the
  array, the element inside.
\<close>

definition js_index :: "'a list \<Rightarrow> nat \<Rightarrow> 'a option" where
  "js_index xs i = (if i < length xs then Some (xs ! i) else None)"

text \<open>The \<^verbatim>\<open>for\<close> loop of \<^verbatim>\<open>validateOrder\<close>, from index \<open>i\<close> on.\<close>

function validateOrder_loop :: "nat \<Rightarrow> IngredientType list \<Rightarrow> IngredientType list \<Rightarrow> bool" where
  "validateOrder_loop i playerIngredients orderIngredients =
     (if i < length orderIngredients
      then (if js_index playerIngredients i \<noteq> js_index orderIngredients i then False
            else validateOrder_loop (i + 1) playerIngredients orderIngredients)
      else True)"
  by pat_completeness auto
termination
  by (relation "measure (\<lambda>(i, ps, os). length os - i)") auto

declare validateOrder_loop.simps [simp del]

definition validateOrder :: "Customer \<Rightarrow> IngredientType list \<Rightarrow> bool" where
  "validateOrder c playerIngredients =
     (if orderFulfilled c then False
      else if length playerIngredients \<noteq> length (ingredients (order c)) then False
      else validateOrder_loop 0 playerIngredients (ingredients (order c)))"

definition fulfillOrder :: "Customer \<Rightarrow> Customer" where
  "fulfillOrder c = c\<lparr>orderFulfilled := True\<rparr>"

section \<open>The engine\<close>

subsection \<open>Data\<close>

text \<open>
  \<^verbatim>\<open>EngineConfig\<close> (declared in \<^verbatim>\<open>Types\<close>), with the optional fields the engine reads;
  \<open>None\<close> is \<^verbatim>\<open>undefined\<close>.  The canvas element is not represented.
\<close>

record EngineConfig =
  antialias :: "bool option"
  maxPixelRatio :: "real option"
  enableShadows :: "bool option"

text \<open>What the engine reads from \<^verbatim>\<open>window\<close>.\<close>

record Window =
  innerWidth :: real
  innerHeight :: real
  devicePixelRatio :: real

datatype ShadowMapType = BasicShadowMap | PCFShadowMap | PCFSoftShadowMap

text \<open>
  The settings of \<^verbatim>\<open>THREE.WebGLRenderer\<close> that the engine writes: the arguments of the
  last \<^verbatim>\<open>setSize\<close> and \<^verbatim>\<open>setPixelRatio\<close>, and \<^verbatim>\<open>shadowMap.enabled\<close> and
  \<^verbatim>\<open>shadowMap.type\<close>.
\<close>

record WebGLRenderer =
  r_antialias :: bool
  r_width :: real
  r_height :: real
  r_pixelRatio :: real
  shadowMap_enabled :: bool
  shadowMap_type :: ShadowMapType

text \<open>
  A renderer as the library creates it: pixel ratio 1, shadow map disabled and of type
  \<^verbatim>\<open>PCFShadowMap\<close>.  The engine sets the size immediately afterwards.
\<close>

definition WebGLRenderer_new :: "bool \<Rightarrow> WebGLRenderer" where
  "WebGLRenderer_new aa =
     \<lparr> r_antialias = aa, r_width = 0, r_height = 0, r_pixelRatio = 1,
       shadowMap_enabled = False, shadowMap_type = PCFShadowMap \<rparr>"

definition setSize :: "real \<Rightarrow> real \<Rightarrow> WebGLRenderer \<Rightarrow> WebGLRenderer" where
  "setSize w h r = r\<lparr>r_width := w, r_height := h\<rparr>"

definition setPixelRatio :: "real \<Rightarrow> WebGLRenderer \<Rightarrow> WebGLRenderer" where
  "setPixelRatio v r = r\<lparr>r_pixelRatio := v\<rparr>"

text \<open>The scene's background colour and fog (colour, near, far); its children are not represented.\<close>

record Scene =
  background :: "nat option"
  fog :: "(nat \<times> real \<times> real) option"

text \<open>
  A game is an opaque collaborator: an identity, and whether it has the optional
  \<^verbatim>\<open>onResize\<close> hook.  Its hooks are taken to return normally and not to call
  into the engine themselves.
\<close>

datatype Game = Game (game_id: nat) (has_onResize: bool)

text \<open>
  The calls the engine makes to its collaborators (the browser's frame scheduler, the
  game, the input object, the renderer's draw call, the console), recorded in the order
  they happen.
\<close>

datatype effect =
    RequestAnimationFrame nat
  | CancelAnimationFrame nat
  | GameUpdate Game real
  | GameDispose Game
  | GameOnResize Game real real
  | ResetMouseDelta
  | RendererRender
  | PreventDefault
  | ConsoleLog string
  | ConsoleWarn string
  | ConsoleError string
  | InputDispose
  | MobileInputDispose
  | RendererDispose

text \<open>
  The private state of \<^verbatim>\<open>Engine\<close>, the scene and the renderer, and the record of the
  effects so far.  The camera, the input objects and the asset loader are not
  represented.
\<close>

record Engine =
  scene :: Scene
  renderer :: WebGLRenderer
  game :: "Game option"
  lastTime :: real
  animationId :: "nat option"
  config :: EngineConfig
  isContextLost :: bool
  targetFPS :: real
  frameInterval :: real
  lastFrameTime :: real
  effects :: "effect list"

definition emit :: "effect \<Rightarrow> Engine \<Rightarrow> Engine" where
  "emit e s = s\<lparr>effects := effects s @ [e]\<rparr>"

text \<open>\<^verbatim>\<open>a ?? d\<close>: the default \<open>d\<close> when \<open>a\<close> is undefined.\<close>

definition nullish :: "'a option \<Rightarrow> 'a \<Rightarrow> 'a" where
  "nullish a d = (case a of None \<Rightarrow> d | Some v \<Rightarrow> v)"

text \<open>Truthiness of an optional number: undefined and 0 are falsy.\<close>

definition truthy :: "real option \<Rightarrow> bool" where
  "truthy a = (case a of None \<Rightarrow> False | Some v \<Rightarrow> v \<noteq> 0)"

subsection \<open>Construction\<close>

definition Engine_constructor :: "EngineConfig \<Rightarrow> Window \<Rightarrow> Engine" where
  "Engine_constructor cfg window =
     (let isMobile = (maxPixelRatio cfg \<noteq> None);
          sc = \<lparr> background = Some 0x87ceeb,
                 fog = (if \<not> isMobile then Some (0x87ceeb, 20, 80) else None) \<rparr>;
          r = WebGLRenderer_new (nullish (antialias cfg) True);
          r = setSize (innerWidth window) (innerHeight window) r;
          pixelRatio = (if truthy (maxPixelRatio cfg)
                        then min (devicePixelRatio window) (the (maxPixelRatio cfg))
                        else devicePixelRatio window);
          r = setPixelRatio pixelRatio r;
          r = (if nullish (enableShadows cfg) True
               then r\<lparr>shadowMap_enabled := True,
                      shadowMap_type := (if truthy (maxPixelRatio cfg) then BasicShadowMap
                                         else PCFSoftShadowMap)\<rparr>
               else r)
      in \<lparr> scene = sc, renderer = r, game = None, lastTime = 0, animationId = None,
           config = cfg, isContextLost = False,
           targetFPS = (if isMobile then 30 else 60),
           frameInterval = (if isMobile then 1000 / 30 else 1000 / 60),
           lastFrameTime = 0,
           effects = [ConsoleLog ''[Engine] Initialized''] \<rparr>)"

subsection \<open>Context loss and restoration\<close>

text \<open>
  The two listeners that \<^verbatim>\<open>setupContextLossHandling\<close> registers on the canvas (the
  renderer's context exists once the renderer has been constructed).
\<close>

definition onContextLost :: "Engine \<Rightarrow> Engine" where
  "onContextLost s =
     emit (ConsoleWarn ''[Engine] WebGL context lost'')
       ((emit PreventDefault s)\<lparr>isContextLost := True\<rparr>)"

definition onContextRestored :: "Window \<Rightarrow> Engine \<Rightarrow> Engine" where
  "onContextRestored window s0 =
     (let s = emit (ConsoleLog ''[Engine] WebGL context restored'') (s0\<lparr>isContextLost := False\<rparr>);
          r = setSize (innerWidth window) (innerHeight window) (renderer s);
          pixelRatio = (if truthy (maxPixelRatio (config s))
                        then min (devicePixelRatio window) (the (maxPixelRatio (config s)))
                        else devicePixelRatio window);
          r = setPixelRatio pixelRatio r;
          r = (if nullish (enableShadows (config s)) True
               then r\<lparr>shadowMap_enabled := True,
                      shadowMap_type := (if truthy (maxPixelRatio (config s)) then BasicShadowMap
                                         else PCFSoftShadowMap)\<rparr>
               else r)
      in s\<lparr>renderer := r\<rparr>)"

subsection \<open>Resize\<close>

definition handleResize :: "Window \<Rightarrow> Engine \<Rightarrow> Engine" where
  "handleResize window s0 =
     (let width = innerWidth window;
          height = innerHeight window;
          s = s0\<lparr>renderer := setSize width height (renderer s0)\<rparr>
      in case game s of
           Some g \<Rightarrow> (if has_onResize g then emit (GameOnResize g width height) s else s)
         | None \<Rightarrow> s)"

subsection \<open>The render loop\<close>

text \<open>
  What one invocation of \<^verbatim>\<open>animate\<close> reads from its environment: the handle that
  \<^verbatim>\<open>requestAnimationFrame\<close> returns, whether \<^verbatim>\<open>renderer.getContext()\<close> is null and
  whether \<^verbatim>\<open>gl.isContextLost()\<close> holds before pacing, whether the draw call throws,
  and the same two context queries as the \<^verbatim>\<open>catch\<close> block makes them.
\<close>

record Probe =
  raf_id :: nat
  ctx_null :: bool
  ctx_lost :: bool
  render_throws :: bool
  ctx_lost_catch :: bool
  ctx_null_recheck :: bool
  ctx_lost_recheck :: bool

text \<open>The \<^verbatim>\<open>catch\<close> block around the draw call.\<close>

definition render_catch :: "Probe \<Rightarrow> Engine \<Rightarrow> Engine" where
  "render_catch p s =
     (if ctx_lost_catch p
      then emit (ConsoleWarn ''[Engine] Rendering failed - context lost'') (s\<lparr>isContextLost := True\<rparr>)
      else let s = emit (ConsoleError ''[Engine] Rendering error:'') s
           in if ctx_null_recheck p \<or> ctx_lost_recheck p then s\<lparr>isContextLost := True\<rparr> else s)"

definition animate :: "real \<Rightarrow> Probe \<Rightarrow> Engine \<Rightarrow> Engine" where
  "animate time p s0 =
     (let s = emit (RequestAnimationFrame (raf_id p)) (s0\<lparr>animationId := Some (raf_id p)\<rparr>)
      in if isContextLost s then s
         else if ctx_null p \<or> ctx_lost p then s\<lparr>isContextLost := True\<rparr>
         else let elapsed = time - lastFrameTime s
              in if elapsed < frameInterval s then s
                 else let s = s\<lparr>lastFrameTime := time - js_rem elapsed (frameInterval s)\<rparr>;
                          deltaTime = (if lastTime s \<noteq> 0 then (time - lastTime s) / 1000 else 0);
                          s = s\<lparr>lastTime := time\<rparr>;
                          s = (case game s of Some g \<Rightarrow> emit (GameUpdate g deltaTime) s
                                            | None \<Rightarrow> s);
                          s = emit ResetMouseDelta s;
                          s = (if background (scene s) = None
                               then s\<lparr>scene := (scene s)\<lparr>background := Some 0x87ceeb\<rparr>\<rparr>
                               else s);
                          s = emit RendererRender s
                      in if render_throws p then render_catch p s else s)"

subsection \<open>Starting and stopping\<close>

definition stop :: "Engine \<Rightarrow> Engine" where
  "stop s0 =
     (let s = (case animationId s0 of
                 Some h \<Rightarrow> (emit (CancelAnimationFrame h) s0)\<lparr>animationId := None\<rparr>
               | None \<Rightarrow> s0);
          s = (case game s of
                 Some g \<Rightarrow> (emit (GameDispose g) s)\<lparr>game := None\<rparr>
               | None \<Rightarrow> s)
      in emit (ConsoleLog ''[Engine] Stopped'') s)"

definition run :: "Game \<Rightarrow> Probe \<Rightarrow> Engine \<Rightarrow> Engine" where
  "run g p s0 =
     (let s = (if game s0 \<noteq> None
               then stop (emit (ConsoleWarn ''[Engine] Stopping previous game'') s0)
               else s0);
          s = s\<lparr>game := Some g, lastTime := 0, lastFrameTime := 0\<rparr>;
          s = emit (ConsoleLog ''[Engine] Starting game'') s
      in animate 0 p s)"

definition dispose :: "Engine \<Rightarrow> Engine" where
  "dispose s =
     emit (ConsoleLog ''[Engine] Disposed'')
       (emit RendererDispose (emit MobileInputDispose (emit InputDispose (stop s))))"

subsection \<open>Runs of the engine\<close>

text \<open>
  What happens to an engine from outside: the browser delivers a frame callback (only
  while a request is pending, that is, not cancelled by \<^verbatim>\<open>stop\<close>), signals that the
  context was lost or restored, signals a resize, or the application calls \<^verbatim>\<open>run\<close> or
  \<^verbatim>\<open>stop\<close>.
\<close>

datatype event =
    Tick real Probe
  | ContextLost
  | ContextRestored Window
  | Resize Window
  | Run Game Probe
  | Stop

fun step :: "event \<Rightarrow> Engine \<Rightarrow> Engine" where
  "step (Tick time p) s = (if animationId s = None then s else animate time p s)"
| "step ContextLost s = onContextLost s"
| "step (ContextRestored window) s = onContextRestored window s"
| "step (Resize window) s = handleResize window s"
| "step (Run g p) s = run g p s"
| "step Stop s = stop s"

definition exec :: "event list \<Rightarrow> Engine \<Rightarrow> Engine" where
  "exec es s = fold step es s"

subsection \<open>Observations on runs\<close>

text \<open>The delta of the first \<^verbatim>\<open>update\<close> call in a sequence of effects, if there is one.\<close>

fun first_update :: "effect list \<Rightarrow> real option" where
  "first_update [] = None"
| "first_update (GameUpdate g dt # es) = Some dt"
| "first_update (e # es) = first_update es"

text \<open>An effect that is neither an \<^verbatim>\<open>update\<close> of a game nor a draw call.\<close>

fun idle_effect :: "effect \<Rightarrow> bool" where
  "idle_effect (GameUpdate g dt) = False"
| "idle_effect RendererRender = False"
| "idle_effect e = True"

text \<open>
  An effect of a session in which \<open>gm\<close> is the active game: no game is disposed, and
  \<^verbatim>\<open>update\<close> is dispatched to the active game only.
\<close>

fun session_effect :: "Game option \<Rightarrow> effect \<Rightarrow> bool" where
  "session_effect gm (GameDispose g) = False"
| "session_effect gm (GameUpdate g dt) = (gm = Some g)"
| "session_effect gm e = True"

fun is_restore :: "event \<Rightarrow> bool" where
  "is_restore (ContextRestored window) = True"
| "is_restore e = False"

fun is_lifecycle :: "event \<Rightarrow> bool" where
  "is_lifecycle (Run g p) = True"
| "is_lifecycle Stop = True"
| "is_lifecycle e = False"

text \<open>Every event that carries the window's state carries the state \<open>w\<close>.\<close>

fun window_is :: "Window \<Rightarrow> event \<Rightarrow> bool" where
  "window_is w (ContextRestored window) = (window = w)"
| "window_is w (Resize window) = (window = w)"
| "window_is w e = True"

text \<open>
  The pacing invariant of the two timestamps: the interval is positive, the pacing
  timestamp lags the tick timestamp by less than one interval, and no negative delta
  has been handed to a game.
\<close>

definition clock_inv :: "Engine \<Rightarrow> bool" where
  "clock_inv s \<longleftrightarrow>
     0 < frameInterval s \<and> lastTime s - frameInterval s < lastFrameTime s
     \<and> (\<forall>g dt. GameUpdate g dt \<in> set (effects s) \<longrightarrow> 0 \<le> dt)"

text \<open>
  The invariant of a session from the effect at index \<open>n\<close> on: frame callbacks are only
  pending while a game is active, and either no \<^verbatim>\<open>update\<close> has been dispatched yet and
  the tick timestamp is still the sentinel 0, or the first dispatched delta was 0.
\<close>

definition fresh_inv :: "nat \<Rightarrow> Engine \<Rightarrow> bool" where
  "fresh_inv n s \<longleftrightarrow>
     n \<le> length (effects s) \<and> (game s \<noteq> None \<or> animationId s = None)
     \<and> ((first_update (drop n (effects s)) = None \<and> lastTime s = 0)
        \<or> first_update (drop n (effects s)) = Some 0)"

text \<open>
  Two renderers agree on the settings that no resize touches: antialiasing and the
  shadow map.
\<close>

definition same_static :: "WebGLRenderer \<Rightarrow> WebGLRenderer \<Rightarrow> bool" where
  "same_static r r' \<longleftrightarrow>
     r_antialias r = r_antialias r' \<and> shadowMap_enabled r = shadowMap_enabled r'
     \<and> shadowMap_type r = shadowMap_type r'"

subsection \<open>Concrete inputs\<close>

definition config_desktop :: EngineConfig where
  "config_desktop = \<lparr> antialias = None, maxPixelRatio = None, enableShadows = None \<rparr>"

definition config_mobile :: EngineConfig where
  "config_mobile = \<lparr> antialias = Some False, maxPixelRatio = Some 2, enableShadows = Some True \<rparr>"

definition window_plain :: Window where
  "window_plain = \<lparr> innerWidth = 800, innerHeight = 600, devicePixelRatio = 1 \<rparr>"

definition window_zoomed :: Window where
  "window_zoomed = \<lparr> innerWidth = 800, innerHeight = 600, devicePixelRatio = 2 \<rparr>"

text \<open>A live context and a draw call that succeeds.\<close>

definition probe_ok :: Probe where
  "probe_ok = \<lparr> raf_id = 1, ctx_null = False, ctx_lost = False, render_throws = False,
                ctx_lost_catch = False, ctx_null_recheck = False, ctx_lost_recheck = False \<rparr>"

text \<open>A live context and a draw call that throws.\<close>

definition probe_throw :: Probe where
  "probe_throw = \<lparr> raf_id = 1, ctx_null = False, ctx_lost = False, render_throws = True,
                   ctx_lost_catch = False, ctx_null_recheck = False, ctx_lost_recheck = False \<rparr>"

definition gameA :: Game where
  "gameA = Game 1 False"

definition gameB :: Game where
  "gameB = Game 2 True"

section \<open>Properties\<close>

lemmas engine_defs = animate_def run_def stop_def handleResize_def onContextLost_def
  onContextRestored_def emit_def render_catch_def Let_def

lemmas example_defs = config_desktop_def config_mobile_def window_plain_def window_zoomed_def
  probe_ok_def probe_throw_def gameA_def gameB_def

lemmas eval_defs = exec_def Engine_constructor_def WebGLRenderer_new_def setSize_def
  setPixelRatio_def nullish_def truthy_def js_rem_def js_trunc_def

lemmas concrete = eval_defs engine_defs example_defs

subsection \<open>Platforms and customers\<close>

text \<open>
  Claim C8.  For every centre \<open>c\<close> and size \<open>s\<close> the bounds computed by the constructor of
  \<^verbatim>\<open>Platform\<close> are \<open>min = c - s/2\<close> and \<open>max = c + s/2\<close> componentwise, and
  \<^verbatim>\<open>getBounds\<close> returns exactly that pair.  For centre \<open>(0,0,0)\<close> and size \<open>(2,2,2)\<close> the
  point \<open>(0.9,0.9,0.9)\<close> lies between \<open>min\<close> and \<open>max\<close> on all three axes, and the point
  \<open>(1.1,0,0)\<close> does not (it is outside on the x axis).
\<close>
theorem Platform_bounds:
  "getBounds (Platform_constructor \<lparr>position = Vector3 cx cy cz, size_v = Vector3 sx sy sz, color = col, visible = vis\<rparr>)
     = \<lparr> bounds_min = Vector3 (cx - sx / 2) (cy - sy / 2) (cz - sz / 2),
         bounds_max = Vector3 (cx + sx / 2) (cy + sy / 2) (cz + sz / 2) \<rparr>
   \<and> (let b = getBounds (Platform_constructor \<lparr>position = Vector3 0 0 0, size_v = Vector3 2 2 2, color = col, visible = vis\<rparr>)
      in (vec_x (bounds_min b) \<le> 0.9 \<and> 0.9 \<le> vec_x (bounds_max b)
        \<and> vec_y (bounds_min b) \<le> 0.9 \<and> 0.9 \<le> vec_y (bounds_max b)
        \<and> vec_z (bounds_min b) \<le> 0.9 \<and> 0.9 \<le> vec_z (bounds_max b))
        \<and> \<not> (vec_x (bounds_min b) \<le> 1.1 \<and> 1.1 \<le> vec_x (bounds_max b)))"
  by (simp add: getBounds_def Platform_constructor_def)

lemma distanceTo_axis: "distanceTo (Vector3 0 0 0) (Vector3 d 0 0) = \<bar>d\<bar>"
  by (simp add: distanceTo_def distanceToSquared_def)

text \<open>
  Claim C9.  For a customer whose order is not fulfilled, \<^verbatim>\<open>checkInteraction\<close> is true
  exactly when the straight-line distance from the customer to the player is strictly
  less than 2.5: true at distance 2.4 and false at distance 2.6.  (Once the order is
  fulfilled it is false everywhere.)
\<close>
theorem checkInteraction_radius:
  "checkInteraction (Customer_constructor pos ord) p = (distanceTo pos p < 5 / 2)
   \<and> checkInteraction (Customer_constructor (Vector3 0 0 0) ord) (Vector3 2.4 0 0)
   \<and> \<not> checkInteraction (Customer_constructor (Vector3 0 0 0) ord) (Vector3 2.6 0 0)
   \<and> \<not> checkInteraction (fulfillOrder (Customer_constructor pos ord)) p"
  by (simp add: checkInteraction_def Customer_constructor_def fulfillOrder_def distanceTo_axis)

lemma validateOrder_loop_iff:
  "length ps = length os \<Longrightarrow>
   validateOrder_loop i ps os = (\<forall>j. i \<le> j \<and> j < length os \<longrightarrow> ps ! j = os ! j)"
proof (induction i ps os rule: validateOrder_loop.induct)
  case (1 i ps os)
  show ?case
  proof (cases "i < length os")
    case False
    then show ?thesis by (subst validateOrder_loop.simps) auto
  next
    case True
    show ?thesis
    proof (cases "ps ! i = os ! i")
      case False
      with True "1.prems" show ?thesis
        by (subst validateOrder_loop.simps) (auto simp: js_index_def)
    next
      case same: True
      have "validateOrder_loop i ps os = validateOrder_loop (i + 1) ps os"
        using True same "1.prems" by (subst validateOrder_loop.simps) (simp add: js_index_def)
      also have "\<dots> = (\<forall>j. i + 1 \<le> j \<and> j < length os \<longrightarrow> ps ! j = os ! j)"
        using "1.IH" True same "1.prems" by (simp add: js_index_def)
      also have "\<dots> = (\<forall>j. i \<le> j \<and> j < length os \<longrightarrow> ps ! j = os ! j)"
        proof (intro iffI allI impI)
        fix j assume h: "\<forall>j. i + 1 \<le> j \<and> j < length os \<longrightarrow> ps ! j = os ! j" and j: "i \<le> j \<and> j < length os"
        show "ps ! j = os ! j"
        proof (cases "j = i")
          case True with same show ?thesis by simp
        next
          case False with j have "i + 1 \<le> j" by simp
          with h j show ?thesis by blast
        qed
      qed simp
      finally show ?thesis .
    qed
  qed
qed

text \<open>
  Claim C10.  \<^verbatim>\<open>validateOrder\<close> is true if and only if the order is not already
  fulfilled, the player's list is as long as the order, and the two lists agree at every
  position.
\<close>
theorem validateOrder_iff:
  "validateOrder c ps =
     (\<not> orderFulfilled c \<and> length ps = length (ingredients (order c))
      \<and> (\<forall>i < length (ingredients (order c)). ps ! i = ingredients (order c) ! i))"
  by (simp add: validateOrder_def validateOrder_loop_iff)

subsection \<open>Single callbacks\<close>

lemma run_unfold:
  "run g p s =
     animate 0 p (emit (ConsoleLog ''[Engine] Starting game'')
       ((if game s \<noteq> None then stop (emit (ConsoleWarn ''[Engine] Stopping previous game'') s) else s)
          \<lparr>game := Some g, lastTime := 0, lastFrameTime := 0\<rparr>))"
  by (simp add: run_def Let_def)

lemma static_animate:
  "frameInterval (animate t p s) = frameInterval s \<and> targetFPS (animate t p s) = targetFPS s
   \<and> config (animate t p s) = config s"
  by (simp add: engine_defs split: option.splits)

lemma static_stop:
  "frameInterval (stop s) = frameInterval s \<and> targetFPS (stop s) = targetFPS s
   \<and> config (stop s) = config s"
  by (simp add: engine_defs split: option.splits)

lemma static_run:
  "frameInterval (run g p s) = frameInterval s \<and> targetFPS (run g p s) = targetFPS s
   \<and> config (run g p s) = config s"
  by (simp add: run_unfold static_animate static_stop emit_def)

lemma static_step:
  "frameInterval (step e s) = frameInterval s \<and> targetFPS (step e s) = targetFPS s
   \<and> config (step e s) = config s"
proof (cases e)
  case (Tick t p) then show ?thesis by (simp add: static_animate)
next
  case (Run g p) then show ?thesis by (simp add: static_run)
next
  case Stop then show ?thesis by (simp add: static_stop)
qed (simp_all add: handleResize_def onContextLost_def onContextRestored_def emit_def Let_def split: option.splits)

lemma static_exec:
  "frameInterval (exec es s) = frameInterval s \<and> targetFPS (exec es s) = targetFPS s
   \<and> config (exec es s) = config s"
  unfolding exec_def by (induction es arbitrary: s) (simp_all add: static_step)

text \<open>
  Claim C5.  The target frame interval is \<open>1000/30\<close> ms when \<^verbatim>\<open>maxPixelRatio\<close> is
  present in the configuration and \<open>1000/60\<close> ms when it is absent; nothing else of the
  configuration or of the window enters, and the interval keeps the value it got at
  construction through every run of the engine.
\<close>
theorem frame_interval_tier:
  "frameInterval (Engine_constructor cfg w) = (if maxPixelRatio cfg \<noteq> None then 1000 / 30 else 1000 / 60)
   \<and> targetFPS (Engine_constructor cfg w) = (if maxPixelRatio cfg \<noteq> None then 30 else 60)
   \<and> frameInterval (exec es (Engine_constructor cfg w)) = frameInterval (Engine_constructor cfg w)"
  by (simp add: static_exec) (simp add: Engine_constructor_def Let_def)

lemma animate_skip:
  assumes "isContextLost s \<or> ctx_null p \<or> ctx_lost p \<or> time - lastFrameTime s < frameInterval s"
  shows "effects (animate time p s) = effects s @ [RequestAnimationFrame (raf_id p)]"
    and "lastFrameTime (animate time p s) = lastFrameTime s"
    and "lastTime (animate time p s) = lastTime s"
    and "scene (animate time p s) = scene s"
    and "game (animate time p s) = game s"
    and "isContextLost (animate time p s) = (isContextLost s \<or> ctx_null p \<or> ctx_lost p)"
  using assms by (auto simp: engine_defs)

lemma animate_advance:
  assumes "\<not> isContextLost s" "\<not> ctx_null p" "\<not> ctx_lost p"
    and "\<not> time - lastFrameTime s < frameInterval s"
  shows "effects (animate time p s) =
           effects s @ RequestAnimationFrame (raf_id p)
             # (case game s of
                  Some g \<Rightarrow> [GameUpdate g (if lastTime s \<noteq> 0 then (time - lastTime s) / 1000 else 0)]
                | None \<Rightarrow> [])
             @ ResetMouseDelta # RendererRender
             # (if render_throws p
                then (if ctx_lost_catch p then [ConsoleWarn ''[Engine] Rendering failed - context lost'']
                      else [ConsoleError ''[Engine] Rendering error:''])
                else [])"
    and "lastFrameTime (animate time p s) = time - js_rem (time - lastFrameTime s) (frameInterval s)"
    and "lastTime (animate time p s) = time"
    and "game (animate time p s) = game s"
    and "frameInterval (animate time p s) = frameInterval s"
    and "animationId (animate time p s) = Some (raf_id p)"
    and "isContextLost (animate time p s) =
           (render_throws p \<and> (ctx_lost_catch p \<or> ctx_null_recheck p \<or> ctx_lost_recheck p))"
  using assms by (auto simp: engine_defs split: option.splits)

lemma animate_throw_vs_ok:
  assumes "render_throws p" "\<not> ctx_lost_catch p" "\<not> ctx_null_recheck p" "\<not> ctx_lost_recheck p"
    and "\<not> isContextLost s" "\<not> ctx_null p" "\<not> ctx_lost p"
    and "\<not> time - lastFrameTime s < frameInterval s"
  shows "(animate time p s)\<lparr>effects := effects (animate time (p\<lparr>render_throws := False\<rparr>) s)\<rparr>
           = animate time (p\<lparr>render_throws := False\<rparr>) s"
  using assms by (simp add: engine_defs split: option.splits)

text \<open>
  Claim C7.  When the draw call of a tick throws and the context is alive at both checks
  of the \<^verbatim>\<open>catch\<close> block, the error is logged and nothing else differs from the tick whose
  draw call succeeded: the game, the timestamps and the lost flag are the same, the next
  frame has been requested, and the next callback that passes the context check and the
  pacing dispatches \<^verbatim>\<open>update\<close> and issues the draw call again.
\<close>
theorem render_failure_swallowed:
  assumes reach: "\<not> isContextLost s" "\<not> ctx_null p" "\<not> ctx_lost p"
      "\<not> time - lastFrameTime s < frameInterval s"
    and throws: "render_throws p"
    and alive: "\<not> ctx_lost_catch p" "\<not> ctx_null_recheck p" "\<not> ctx_lost_recheck p"
  shows "let s' = animate time p s; ok = animate time (p\<lparr>render_throws := False\<rparr>) s
         in effects s' = effects ok @ [ConsoleError ''[Engine] Rendering error:'']
          \<and> s'\<lparr>effects := effects ok\<rparr> = ok
          \<and> \<not> isContextLost s'
          \<and> animationId s' = Some (raf_id p)
          \<and> (\<forall>time2 p2. \<not> ctx_null p2 \<and> \<not> ctx_lost p2
                \<and> \<not> time2 - lastFrameTime s' < frameInterval s'
              \<longrightarrow> (\<exists>rest. effects (step (Tick time2 p2) s')
                     = effects s' @ RequestAnimationFrame (raf_id p2)
                       # (case game s of
                            Some g \<Rightarrow> [GameUpdate g (if time \<noteq> 0 then (time2 - time) / 1000 else 0)]
                          | None \<Rightarrow> [])
                       @ ResetMouseDelta # RendererRender # rest))"
proof -
  let ?s' = "animate time p s"
  let ?p' = "p\<lparr>render_throws := False\<rparr>"
  let ?ok = "animate time ?p' s"
  have e1: "effects ?s' = effects ?ok @ [ConsoleError ''[Engine] Rendering error:'']"
    using animate_advance(1) [OF reach] animate_advance(1) [of s ?p' time] reach throws alive
    by simp
  have e2: "?s'\<lparr>effects := effects ?ok\<rparr> = ?ok"
    using animate_throw_vs_ok [OF throws alive reach] .
  have f: "\<not> isContextLost ?s'" "animationId ?s' = Some (raf_id p)" "lastTime ?s' = time"
      "game ?s' = game s"
    using animate_advance [OF reach] alive by simp_all
  have next_tick: "\<exists>rest. effects (step (Tick time2 p2) ?s')
                     = effects ?s' @ RequestAnimationFrame (raf_id p2)
                       # (case game s of
                            Some g \<Rightarrow> [GameUpdate g (if time \<noteq> 0 then (time2 - time) / 1000 else 0)]
                          | None \<Rightarrow> [])
                       @ ResetMouseDelta # RendererRender # rest"
    if h: "\<not> ctx_null p2 \<and> \<not> ctx_lost p2 \<and> \<not> time2 - lastFrameTime ?s' < frameInterval ?s'"
    for time2 p2
  proof -
    from h have g: "\<not> ctx_null p2" "\<not> ctx_lost p2" "\<not> time2 - lastFrameTime ?s' < frameInterval ?s'"
      by simp_all
    have "effects (step (Tick time2 p2) ?s')
            = effects ?s' @ RequestAnimationFrame (raf_id p2)
                # (case game s of
                     Some g \<Rightarrow> [GameUpdate g (if time \<noteq> 0 then (time2 - time) / 1000 else 0)]
                   | None \<Rightarrow> [])
                @ ResetMouseDelta # RendererRender
                # (if render_throws p2
                   then (if ctx_lost_catch p2
                         then [ConsoleWarn ''[Engine] Rendering failed - context lost'']
                         else [ConsoleError ''[Engine] Rendering error:''])
                   else [])"
      using animate_advance(1) [OF f(1) g, unfolded f(3) f(4)] by (simp add: f(2))
    then show ?thesis by (rule exI)
  qed
  show ?thesis unfolding Let_def using e1 e2 f(1,2) next_tick by blast
qed

text \<open>
  Claim C2, as the code has it.  A callback whose timestamp is less than one interval
  after the pacing timestamp does not advance: it requests the next frame and nothing
  else, and both timestamps are unchanged.  A callback that is at least one interval
  after it, with the lost flag clear and a live context, advances: the pacing
  timestamp becomes \<open>time - (elapsed mod interval)\<close>, \<^verbatim>\<open>update\<close> is dispatched to the
  active game, the input deltas are reset and the draw call is issued.
\<close>
theorem frame_pacing:
  "(time - lastFrameTime s < frameInterval s \<longrightarrow>
      effects (animate time p s) = effects s @ [RequestAnimationFrame (raf_id p)]
      \<and> lastFrameTime (animate time p s) = lastFrameTime s
      \<and> lastTime (animate time p s) = lastTime s)
   \<and> (\<not> time - lastFrameTime s < frameInterval s
        \<and> \<not> isContextLost s \<and> \<not> ctx_null p \<and> \<not> ctx_lost p \<longrightarrow>
      lastFrameTime (animate time p s) = time - js_rem (time - lastFrameTime s) (frameInterval s)
      \<and> (\<exists>rest. effects (animate time p s) =
            effects s @ RequestAnimationFrame (raf_id p)
              # (case game s of
                   Some g \<Rightarrow> [GameUpdate g (if lastTime s \<noteq> 0 then (time - lastTime s) / 1000 else 0)]
                 | None \<Rightarrow> [])
              @ ResetMouseDelta # RendererRender # rest))"
proof (intro conjI impI)
  assume a: "time - lastFrameTime s < frameInterval s"
  then have "isContextLost s \<or> ctx_null p \<or> ctx_lost p \<or> time - lastFrameTime s < frameInterval s"
    by simp
  note sk = animate_skip [OF this]
  show "effects (animate time p s) = effects s @ [RequestAnimationFrame (raf_id p)]" by (rule sk(1))
  show "lastFrameTime (animate time p s) = lastFrameTime s" by (rule sk(2))
  show "lastTime (animate time p s) = lastTime s" by (rule sk(3))
next
  assume a: "\<not> time - lastFrameTime s < frameInterval s
        \<and> \<not> isContextLost s \<and> \<not> ctx_null p \<and> \<not> ctx_lost p"
  then have g: "\<not> isContextLost s" "\<not> ctx_null p" "\<not> ctx_lost p"
    "\<not> time - lastFrameTime s < frameInterval s" by simp_all
  show "lastFrameTime (animate time p s) = time - js_rem (time - lastFrameTime s) (frameInterval s)"
    by (rule animate_advance(2) [OF g])
  show "\<exists>rest. effects (animate time p s) =
            effects s @ RequestAnimationFrame (raf_id p)
              # (case game s of
                   Some g \<Rightarrow> [GameUpdate g (if lastTime s \<noteq> 0 then (time - lastTime s) / 1000 else 0)]
                 | None \<Rightarrow> [])
              @ ResetMouseDelta # RendererRender # rest"
    using animate_advance(1) [OF g] by (rule exI)
qed

subsection \<open>The clock\<close>

lemma js_rem_bounds:
  assumes "0 \<le> a" and "0 < b"
  shows "0 \<le> js_rem a b" and "js_rem a b < b"
proof -
  have q: "0 \<le> a / b" using assms by simp
  then have t: "js_trunc (a / b) = \<lfloor>a / b\<rfloor>" by (simp add: js_trunc_def)
  have lo: "of_int \<lfloor>a / b\<rfloor> * b \<le> a" using assms(2) by (rule floor_divide_lower)
  have hi: "a < (of_int \<lfloor>a / b\<rfloor> + 1) * b" using assms(2) by (rule floor_divide_upper)
  show "0 \<le> js_rem a b" using lo by (simp add: js_rem_def t mult.commute)
  show "js_rem a b < b" using hi by (simp add: js_rem_def t algebra_simps)
qed

lemma clock_inv_animate:
  assumes "clock_inv s"
  shows "clock_inv (animate time p s)"
proof -
  let ?e = "time - lastFrameTime s"
  let ?fi = "frameInterval s"
  show ?thesis
  proof (cases "?e < ?fi")
    case True
    with assms show ?thesis
      by (auto simp: clock_inv_def engine_defs split: option.splits)
  next
    case False
    with assms have pos: "0 \<le> ?e" and fi: "0 < ?fi" by (auto simp: clock_inv_def)
    note b = js_rem_bounds [OF pos fi]
    have gt: "lastTime s < time" using False assms by (auto simp: clock_inv_def)
    show ?thesis
      using assms False b gt
      by (auto simp: clock_inv_def engine_defs split: option.splits)
  qed
qed

lemma clock_inv_stop: "clock_inv s \<Longrightarrow> clock_inv (stop s)"
  by (auto simp: clock_inv_def engine_defs split: option.splits)

lemma clock_inv_step: "clock_inv s \<Longrightarrow> clock_inv (step e s)"
proof (cases e)
  case (Tick t p)
  assume "clock_inv s" then show ?thesis using Tick by (simp add: clock_inv_animate)
next
  case (Run g p)
  assume a: "clock_inv s"
  have 1: "clock_inv (emit (ConsoleWarn ''[Engine] Stopping previous game'') s)"
    using a by (auto simp: clock_inv_def emit_def)
  have 2: "clock_inv s' \<Longrightarrow> clock_inv (emit (ConsoleLog ''[Engine] Starting game'') (s'\<lparr>game := Some g, lastTime := 0, lastFrameTime := 0\<rparr>))" for s'
    by (auto simp: clock_inv_def emit_def)
  show ?thesis using Run a 1 2 clock_inv_stop clock_inv_animate
    by (simp add: run_def Let_def)
qed (auto simp: clock_inv_def engine_defs split: option.splits)

lemma clock_inv_exec: "clock_inv s \<Longrightarrow> clock_inv (exec es s)"
  unfolding exec_def by (induction es arbitrary: s) (simp_all add: clock_inv_step)

lemma clock_inv_init: "clock_inv (Engine_constructor cfg w)"
  by (simp add: clock_inv_def Engine_constructor_def Let_def)

text \<open>
  Claim C3.  Whatever the sequence of callbacks and their timestamps (no monotonicity is
  assumed), and whatever context, resize, \<^verbatim>\<open>run\<close> and \<^verbatim>\<open>stop\<close> events are interleaved,
  every delta that the engine passes to a game's \<^verbatim>\<open>update\<close> is at least 0.
\<close>
theorem delta_nonneg:
  "GameUpdate g dt \<in> set (effects (exec es (Engine_constructor cfg w))) \<Longrightarrow> 0 \<le> dt"
  using clock_inv_exec [OF clock_inv_init, of es cfg w] by (auto simp: clock_inv_def)

lemma first_update_append:
  "first_update (xs @ ys) = (case first_update xs of None \<Rightarrow> first_update ys | Some d \<Rightarrow> Some d)"
  by (induction xs rule: first_update.induct) simp_all

lemma fresh_inv_animate:
  "fresh_inv n s \<Longrightarrow> game s \<noteq> None \<Longrightarrow> fresh_inv n (animate time p s)"
  by (auto simp: fresh_inv_def engine_defs first_update_append split: option.splits)

lemma fresh_inv_stop: "fresh_inv n s \<Longrightarrow> fresh_inv n (stop s)"
  by (auto simp: fresh_inv_def engine_defs first_update_append split: option.splits)

lemma fresh_inv_run: "fresh_inv n s \<Longrightarrow> fresh_inv n (run g p s)"
proof -
  assume a: "fresh_inv n s"
  have 1: "fresh_inv n (emit (ConsoleWarn ''[Engine] Stopping previous game'') s)"
    using a by (auto simp: fresh_inv_def emit_def first_update_append split: option.splits)
  have 2: "fresh_inv n s' \<Longrightarrow> fresh_inv n (emit (ConsoleLog ''[Engine] Starting game'') (s'\<lparr>game := Some g, lastTime := 0, lastFrameTime := 0\<rparr>))" for s'
    by (auto simp: fresh_inv_def emit_def first_update_append split: option.splits)
  have 3: "game (emit (ConsoleLog ''[Engine] Starting game'') (s'\<lparr>game := Some g, lastTime := 0, lastFrameTime := 0\<rparr>)) \<noteq> None" for s'
    by (simp add: emit_def)
  show ?thesis using a 1 2 3 fresh_inv_stop fresh_inv_animate
    by (simp add: run_def Let_def)
qed

lemma fresh_inv_step: "fresh_inv n s \<Longrightarrow> fresh_inv n (step e s)"
proof (cases e)
  case (Tick t p)
  assume a: "fresh_inv n s"
  show ?thesis
  proof (cases "animationId s = None")
    case True with a Tick show ?thesis by simp
  next
    case False
    with a have "game s \<noteq> None" by (auto simp: fresh_inv_def)
    with a Tick False show ?thesis by (simp add: fresh_inv_animate)
  qed
next
  case (Run g p)
  assume "fresh_inv n s" then show ?thesis using Run by (simp add: fresh_inv_run)
next
  case Stop
  assume "fresh_inv n s" then show ?thesis using Stop by (simp add: fresh_inv_stop)
qed (auto simp: fresh_inv_def engine_defs first_update_append split: option.splits)

lemma fresh_inv_exec: "fresh_inv n s \<Longrightarrow> fresh_inv n (exec es s)"
  unfolding exec_def by (induction es arbitrary: s) (simp_all add: fresh_inv_step)

lemma fresh_inv_start: "fresh_inv (length (effects s0)) (run g p s0)"
proof -
  let ?n = "length (effects s0)"
  let ?mid = "\<lambda>s'. emit (ConsoleLog ''[Engine] Starting game'') (s'\<lparr>game := Some g, lastTime := 0, lastFrameTime := 0\<rparr>)"
  have A: "fresh_inv ?n (?mid s')"
    if "?n \<le> length (effects s')" "first_update (drop ?n (effects s')) = None" for s'
    using that by (simp add: fresh_inv_def emit_def first_update_append)
  have B: "?n \<le> length (effects (stop (emit (ConsoleWarn ''[Engine] Stopping previous game'') s0)))
        \<and> first_update (drop ?n (effects (stop (emit (ConsoleWarn ''[Engine] Stopping previous game'') s0)))) = None"
    by (simp add: stop_def emit_def Let_def first_update_append split: option.splits)
  have C: "game (?mid s') \<noteq> None" for s' by (simp add: emit_def)
  show ?thesis
  proof (cases "game s0 = None")
    case True
    have "fresh_inv ?n (?mid s0)" by (rule A) simp_all
    from fresh_inv_animate [OF this C] True show ?thesis by (simp add: run_def Let_def)
  next
    case False
    have "fresh_inv ?n (?mid (stop (emit (ConsoleWarn ''[Engine] Stopping previous game'') s0)))"
      using B by (intro A) simp_all
    from fresh_inv_animate [OF this C] False show ?thesis by (simp add: run_def Let_def)
  qed
qed

text \<open>
  Claim C4.  After \<^verbatim>\<open>run\<close>, called in any state of the engine, the first \<^verbatim>\<open>update\<close> that
  is dispatched (if any is) receives the delta 0, whatever the timestamps of the
  callbacks are.
\<close>
theorem first_delta_zero:
  "first_update (drop (length (effects s0)) (effects (exec es (run g p s0)))) = None
   \<or> first_update (drop (length (effects s0)) (effects (exec es (run g p s0)))) = Some 0"
  using fresh_inv_exec [OF fresh_inv_start [of s0 g p], of es] by (auto simp: fresh_inv_def)

subsection \<open>Sessions\<close>

lemma session_animate:
  "game (animate time p s) = game s \<and>
   (\<exists>new. effects (animate time p s) = effects s @ new \<and> list_all (session_effect (game s)) new)"
  by (simp add: engine_defs split: option.splits)

lemma session_step:
  "\<not> is_lifecycle e \<Longrightarrow>
   game (step e s) = game s \<and>
   (\<exists>new. effects (step e s) = effects s @ new \<and> list_all (session_effect (game s)) new)"
proof (cases e)
  case (Tick t p)
  then show ?thesis using session_animate [of t p s] by auto
qed (simp_all add: engine_defs split: option.splits)

lemma session_exec:
  "list_all (\<lambda>e. \<not> is_lifecycle e) es \<Longrightarrow>
   game (exec es s) = game s \<and>
   (\<exists>new. effects (exec es s) = effects s @ new \<and> list_all (session_effect (game s)) new)"
proof (induction es arbitrary: s)
  case Nil
  then show ?case by (simp add: exec_def)
next
  case (Cons e es)
  from Cons.prems have e: "\<not> is_lifecycle e" and es: "list_all (\<lambda>e. \<not> is_lifecycle e) es" by simp_all
  from session_step [OF e, of s] obtain n1 where
    g1: "game (step e s) = game s" and n1: "effects (step e s) = effects s @ n1"
    and l1: "list_all (session_effect (game s)) n1" by blast
  from Cons.IH [OF es, of "step e s"] obtain n2 where
    g2: "game (exec es (step e s)) = game (step e s)"
    and n2: "effects (exec es (step e s)) = effects (step e s) @ n2"
    and l2: "list_all (session_effect (game (step e s))) n2" by blast
  have x: "exec (e # es) s = exec es (step e s)" by (simp add: exec_def)
  show ?case unfolding x using g1 g2 n1 n2 l1 l2 by simp
qed

lemma run_fresh:
  "game s = None \<Longrightarrow>
   game (run g p s) = Some g \<and>
   (\<exists>new. effects (run g p s) = effects s @ new \<and> list_all (session_effect (Some g)) new)"
  by (simp add: engine_defs split: option.splits)

lemma run_replace:
  "game s = Some a \<Longrightarrow>
   game (run g p s) = Some g \<and>
   (\<exists>pre post. effects (run g p s) = effects s @ pre @ GameDispose a # post
      \<and> list_all (session_effect None) pre \<and> list_all (session_effect (Some g)) post)"
proof -
  assume a: "game s = Some a"
  let ?w = "ConsoleWarn ''[Engine] Stopping previous game''"
  let ?c = "(case animationId s of Some h \<Rightarrow> [CancelAnimationFrame h] | None \<Rightarrow> [])"
  let ?s1 = "stop (emit ?w s)"
  have st: "effects ?s1 = effects s @ (?w # ?c) @ GameDispose a # [ConsoleLog ''[Engine] Stopped'']"
       "game ?s1 = None"
    using a by (simp_all add: stop_def emit_def Let_def split: option.splits)
  let ?s2 = "emit (ConsoleLog ''[Engine] Starting game'') (?s1\<lparr>game := Some g, lastTime := 0, lastFrameTime := 0\<rparr>)"
  have s2: "effects ?s2 = effects ?s1 @ [ConsoleLog ''[Engine] Starting game'']" "game ?s2 = Some g"
    by (simp_all add: emit_def)
  from session_animate [of 0 p ?s2] obtain n where
    g3: "game (animate 0 p ?s2) = Some g" and n: "effects (animate 0 p ?s2) = effects ?s2 @ n"
    and l: "list_all (session_effect (Some g)) n" using s2 by auto
  have r: "run g p s = animate 0 p ?s2" using a by (simp add: run_def Let_def)
  have pre: "list_all (session_effect None) (?w # ?c)" by (simp split: option.splits)
  have post: "list_all (session_effect (Some g)) ([ConsoleLog ''[Engine] Stopped'', ConsoleLog ''[Engine] Starting game''] @ n)"
    using l by simp
  have "effects (run g p s) = effects s @ (?w # ?c) @ GameDispose a # ([ConsoleLog ''[Engine] Stopped'', ConsoleLog ''[Engine] Starting game''] @ n)"
    unfolding r n s2 st by simp
  with pre post g3 r show ?thesis by metis
qed

lemma count_session: "list_all (session_effect gm) xs \<Longrightarrow> count_list xs (GameDispose a) = 0"
  by (induction xs) auto

lemma session_no_dispose: "list_all (session_effect gm) xs \<Longrightarrow> \<forall>x\<in>set xs. x \<noteq> GameDispose a"
  by (induction xs) auto

lemma session_updates: "list_all (session_effect gm) xs \<Longrightarrow> GameUpdate g dt \<in> set xs \<Longrightarrow> gm = Some g"
  by (induction xs) auto

lemma takeWhile_until: "\<forall>x\<in>set xs. x \<noteq> d \<Longrightarrow> takeWhile (\<lambda>e. e \<noteq> d) (xs @ d # ys) = xs"
  by (induction xs) auto

lemma dropWhile_until: "\<forall>x\<in>set xs. x \<noteq> d \<Longrightarrow> dropWhile (\<lambda>e. e \<noteq> d) (xs @ d # ys) = d # ys"
  by (induction xs) auto

text \<open>
  Claim C6.  \<^verbatim>\<open>run(a)\<close> followed (after any callbacks, context and resize events) by
  \<^verbatim>\<open>run(b)\<close> for another game \<open>b\<close> disposes \<open>a\<close> exactly once; no \<^verbatim>\<open>update\<close> of \<open>b\<close>
  is dispatched before that disposal, and no \<^verbatim>\<open>update\<close> of \<open>a\<close> after it.
\<close>
theorem restart_disposes_once:
  assumes fresh: "game s0 = None" and ne: "a \<noteq> b"
    and es1: "list_all (\<lambda>e. \<not> is_lifecycle e) es1"
    and es2: "list_all (\<lambda>e. \<not> is_lifecycle e) es2"
  shows "let new = drop (length (effects s0))
                     (effects (exec es2 (run b pb (exec es1 (run a pa s0)))))
         in count_list new (GameDispose a) = 1
          \<and> (\<forall>dt. GameUpdate b dt \<notin> set (takeWhile (\<lambda>e. e \<noteq> GameDispose a) new))
          \<and> (\<forall>dt. GameUpdate a dt \<notin> set (dropWhile (\<lambda>e. e \<noteq> GameDispose a) new))"
proof -
  let ?sa = "run a pa s0"
  let ?s1 = "exec es1 ?sa"
  let ?sb = "run b pb ?s1"
  let ?s2 = "exec es2 ?sb"
  from run_fresh [OF fresh, of a pa] obtain n0 where
    ga: "game ?sa = Some a" and n0: "effects ?sa = effects s0 @ n0"
    and l0: "list_all (session_effect (Some a)) n0" by blast
  from session_exec [OF es1, of ?sa] ga obtain n1 where
    g1: "game ?s1 = Some a" and n1: "effects ?s1 = effects ?sa @ n1"
    and l1: "list_all (session_effect (Some a)) n1" by auto
  from run_replace [OF g1, of b pb] obtain pre post where
    gb: "game ?sb = Some b" and nb: "effects ?sb = effects ?s1 @ pre @ GameDispose a # post"
    and lpre: "list_all (session_effect None) pre"
    and lpost: "list_all (session_effect (Some b)) post" by blast
  from session_exec [OF es2, of ?sb] gb obtain n2 where
    n2: "effects ?s2 = effects ?sb @ n2"
    and l2: "list_all (session_effect (Some b)) n2" by auto
  let ?before = "n0 @ n1 @ pre"
  let ?after = "post @ n2"
  have new: "drop (length (effects s0)) (effects ?s2) = ?before @ GameDispose a # ?after"
    unfolding n2 nb n1 n0 by simp
  have nb1: "\<forall>x\<in>set ?before. x \<noteq> GameDispose a"
    using session_no_dispose [OF l0, of a] session_no_dispose [OF l1, of a]
      session_no_dispose [OF lpre, of a] by auto
  have cnt: "count_list (?before @ GameDispose a # ?after) (GameDispose a) = 1"
    using count_session [OF l0, of a] count_session [OF l1, of a] count_session [OF lpre, of a]
      count_session [OF lpost, of a] count_session [OF l2, of a] by simp
  have tw: "takeWhile (\<lambda>e. e \<noteq> GameDispose a) (?before @ GameDispose a # ?after) = ?before"
    using nb1 by (rule takeWhile_until)
  have dw: "dropWhile (\<lambda>e. e \<noteq> GameDispose a) (?before @ GameDispose a # ?after) = GameDispose a # ?after"
    using nb1 by (rule dropWhile_until)
  have ub: "GameUpdate b dt \<notin> set ?before" for dt
    using session_updates [OF l0, of b dt] session_updates [OF l1, of b dt]
      session_updates [OF lpre, of b dt] ne by auto
  have ua: "GameUpdate a dt \<notin> set (GameDispose a # ?after)" for dt
    using session_updates [OF lpost, of a dt] session_updates [OF l2, of a dt] ne by auto
  show ?thesis unfolding Let_def new tw dw using cnt ub ua by blast
qed

lemma exec_Cons: "exec (e # es) s = exec es (step e s)"
  by (simp add: exec_def)

subsection \<open>Context loss\<close>

lemma lost_stop:
  "isContextLost (stop s) = isContextLost s \<and> scene (stop s) = scene s \<and>
   (\<exists>new. effects (stop s) = effects s @ new \<and> list_all idle_effect new)"
  by (simp add: stop_def emit_def Let_def split: option.splits)

lemma lost_run:
  assumes "isContextLost s"
  shows "isContextLost (run g p s) \<and> scene (run g p s) = scene s \<and>
         (\<exists>new. effects (run g p s) = effects s @ new \<and> list_all idle_effect new)"
proof -
  let ?w = "emit (ConsoleWarn ''[Engine] Stopping previous game'') s"
  let ?x = "if game s \<noteq> None then stop ?w else s"
  let ?m = "emit (ConsoleLog ''[Engine] Starting game'') (?x\<lparr>game := Some g, lastTime := 0, lastFrameTime := 0\<rparr>)"
  from lost_stop [of ?w] obtain n1 where
    "isContextLost (stop ?w) = isContextLost ?w" "scene (stop ?w) = scene ?w"
    "effects (stop ?w) = effects ?w @ n1" "list_all idle_effect n1" by blast
  then have x: "isContextLost ?x" "scene ?x = scene s"
    "\<exists>new. effects ?x = effects s @ new \<and> list_all idle_effect new"
    using assms by (auto simp: emit_def)
  then obtain n2 where n2: "effects ?x = effects s @ n2" "list_all idle_effect n2" by blast
  have m: "isContextLost ?m" "scene ?m = scene s"
    "effects ?m = effects s @ n2 @ [ConsoleLog ''[Engine] Starting game'']"
    using x(1,2) n2(1) by (simp_all add: emit_def)
  from m(1) have "isContextLost ?m \<or> ctx_null p \<or> ctx_lost p \<or> 0 - lastFrameTime ?m < frameInterval ?m"
    by simp
  note sk = animate_skip [OF this]
  have r: "run g p s = animate 0 p ?m" by (rule run_unfold)
  have "effects (run g p s) = effects s @ (n2 @ [ConsoleLog ''[Engine] Starting game'', RequestAnimationFrame (raf_id p)])"
    unfolding r sk(1) m(3) by simp
  moreover have "list_all idle_effect (n2 @ [ConsoleLog ''[Engine] Starting game'', RequestAnimationFrame (raf_id p)])"
    using n2(2) by simp
  ultimately have "\<exists>new. effects (run g p s) = effects s @ new \<and> list_all idle_effect new" by blast
  moreover have "isContextLost (run g p s)" unfolding r sk(6) using m(1) by simp
  moreover have "scene (run g p s) = scene s" unfolding r sk(4) using m(2) .
  ultimately show ?thesis by blast
qed

lemma lost_step:
  assumes "isContextLost s" "\<not> is_restore e"
  shows "isContextLost (step e s) \<and> scene (step e s) = scene s \<and>
         (\<exists>new. effects (step e s) = effects s @ new \<and> list_all idle_effect new)"
proof (cases e)
  case (Tick t p)
  from assms(1) have "isContextLost s \<or> ctx_null p \<or> ctx_lost p \<or> t - lastFrameTime s < frameInterval s"
    by simp
  note sk = animate_skip [OF this]
  show ?thesis using Tick assms(1) sk(1,4,6) by simp
next
  case (Run g p)
  then show ?thesis using lost_run [OF assms(1)] by simp
next
  case Stop
  then show ?thesis using lost_stop [of s] assms(1) by simp
next
  case (ContextRestored w)
  with assms(2) show ?thesis by simp
qed (simp_all add: assms(1) handleResize_def onContextLost_def emit_def Let_def split: option.splits)

lemma lost_exec:
  "isContextLost s \<Longrightarrow> list_all (\<lambda>e. \<not> is_restore e) es \<Longrightarrow>
   isContextLost (exec es s) \<and> scene (exec es s) = scene s \<and>
   (\<exists>new. effects (exec es s) = effects s @ new \<and> list_all idle_effect new)"
proof (induction es arbitrary: s)
  case Nil
  then show ?case by (simp add: exec_def)
next
  case (Cons e es)
  from Cons.prems have e: "\<not> is_restore e" and es: "list_all (\<lambda>e. \<not> is_restore e) es" by simp_all
  from lost_step [OF Cons.prems(1) e] obtain n1 where
    a: "isContextLost (step e s)" "scene (step e s) = scene s"
    "effects (step e s) = effects s @ n1" "list_all idle_effect n1" by blast
  from Cons.IH [OF a(1) es] obtain n2 where
    b: "isContextLost (exec es (step e s))" "scene (exec es (step e s)) = scene (step e s)"
    "effects (exec es (step e s)) = effects (step e s) @ n2" "list_all idle_effect n2" by blast
  have "effects (exec es (step e s)) = effects s @ (n1 @ n2)" "list_all idle_effect (n1 @ n2)"
    using a b by simp_all
  then have "\<exists>new. effects (exec es (step e s)) = effects s @ new \<and> list_all idle_effect new" by blast
  then show ?case unfolding exec_Cons using a(2) b(1,2) by simp
qed

subsection \<open>Renderer settings\<close>

lemma renderer_animate: "renderer (animate t p s) = renderer s"
  by (simp add: engine_defs split: option.splits)

lemma renderer_stop: "renderer (stop s) = renderer s"
  by (simp add: engine_defs split: option.splits)

lemma renderer_run: "renderer (run g p s) = renderer s"
  by (simp add: run_unfold renderer_animate renderer_stop emit_def)

lemma restored_settings:
  "\<not> isContextLost (onContextRestored w s)"
  "r_width (renderer (onContextRestored w s)) = innerWidth w"
  "r_height (renderer (onContextRestored w s)) = innerHeight w"
  "r_pixelRatio (renderer (onContextRestored w s)) =
     (if truthy (maxPixelRatio (config s)) then min (devicePixelRatio w) (the (maxPixelRatio (config s)))
      else devicePixelRatio w)"
  "effects (onContextRestored w s) = effects s @ [ConsoleLog ''[Engine] WebGL context restored'']"
  "lastTime (onContextRestored w s) = lastTime s"
  "lastFrameTime (onContextRestored w s) = lastFrameTime s"
  "frameInterval (onContextRestored w s) = frameInterval s"
  "game (onContextRestored w s) = game s"
  "animationId (onContextRestored w s) = animationId s"
  by (simp_all add: onContextRestored_def emit_def Let_def setSize_def setPixelRatio_def)

lemma restored_renderer:
  assumes "same_static (renderer s) (renderer (Engine_constructor (config s) w0))"
  shows "renderer (onContextRestored w s) = renderer (Engine_constructor (config s) w)"
  using assms
  by (cases "renderer s")
     (simp add: same_static_def onContextRestored_def emit_def Let_def setSize_def setPixelRatio_def
      Engine_constructor_def WebGLRenderer_new_def)

lemma static_constructor: "same_static (renderer (Engine_constructor cfg w)) (renderer (Engine_constructor cfg w0))"
  by (simp add: same_static_def Engine_constructor_def Let_def setSize_def setPixelRatio_def WebGLRenderer_new_def)

lemma static_inv_step:
  assumes "same_static (renderer s) (renderer (Engine_constructor (config s) w0))"
  shows "same_static (renderer (step e s)) (renderer (Engine_constructor (config (step e s)) w0))"
proof (cases e)
  case (Tick t p) then show ?thesis using assms static_animate [of t p s] by (simp add: renderer_animate)
next
  case (Run g p) then show ?thesis using assms static_run [of g p s] by (simp add: renderer_run)
next
  case Stop then show ?thesis using assms static_stop [of s] by (simp add: renderer_stop)
next
  case ContextLost then show ?thesis using assms by (simp add: onContextLost_def emit_def)
next
  case (Resize w)
  then show ?thesis using assms
    by (simp add: handleResize_def emit_def Let_def setSize_def same_static_def split: option.splits)
next
  case (ContextRestored w)
  have c: "config (onContextRestored w s) = config s" by (simp add: onContextRestored_def emit_def Let_def)
  show ?thesis unfolding ContextRestored step.simps c restored_renderer [OF assms]
    by (rule static_constructor)
qed

lemma static_inv_exec:
  "same_static (renderer s) (renderer (Engine_constructor (config s) w0)) \<Longrightarrow>
   same_static (renderer (exec es s)) (renderer (Engine_constructor (config (exec es s)) w0))"
  unfolding exec_def by (induction es arbitrary: s) (simp_all add: static_inv_step)

lemma fixed_step:
  assumes "renderer s = renderer (Engine_constructor (config s) w)" "window_is w e"
  shows "renderer (step e s) = renderer s"
proof (cases e)
  case (Tick t p) then show ?thesis by (simp add: renderer_animate)
next
  case (Run g p) then show ?thesis by (simp add: renderer_run)
next
  case Stop then show ?thesis by (simp add: renderer_stop)
next
  case ContextLost then show ?thesis by (simp add: onContextLost_def emit_def)
next
  case (Resize w')
  with assms(2) have w: "w' = w" by simp
  have "setSize (innerWidth w) (innerHeight w) (renderer (Engine_constructor (config s) w))
          = renderer (Engine_constructor (config s) w)"
    by (simp add: Engine_constructor_def Let_def setSize_def setPixelRatio_def WebGLRenderer_new_def)
  then show ?thesis using Resize w assms(1)
    by (simp add: handleResize_def emit_def Let_def split: option.splits)
next
  case (ContextRestored w')
  with assms(2) have w: "w' = w" by simp
  have "same_static (renderer s) (renderer (Engine_constructor (config s) w))"
    unfolding assms(1) by (rule static_constructor)
  from restored_renderer [OF this, of w] show ?thesis using ContextRestored w assms(1) by simp
qed

lemma fixed_exec:
  "renderer s = renderer (Engine_constructor (config s) w) \<Longrightarrow> list_all (window_is w) es \<Longrightarrow>
   renderer (exec es s) = renderer s"
proof (induction es arbitrary: s)
  case Nil then show ?case by (simp add: exec_def)
next
  case (Cons e es)
  from Cons.prems have e: "window_is w e" and es: "list_all (window_is w) es" by simp_all
  have r: "renderer (step e s) = renderer s" by (rule fixed_step [OF Cons.prems(1) e])
  have c: "config (step e s) = config s" using static_step [of e s] by simp
  have "renderer (step e s) = renderer (Engine_constructor (config (step e s)) w)"
    unfolding r c by (rule Cons.prems(1))
  from Cons.IH [OF this es] show ?case unfolding exec_Cons r .
qed

text \<open>
  Claim C1, as the code has it.  From the context-lost signal until a context-restored
  signal, whatever callbacks, resizes, \<^verbatim>\<open>run\<close> and \<^verbatim>\<open>stop\<close> calls happen, the lost flag
  stays set, no \<^verbatim>\<open>update\<close> is dispatched, no draw call is issued and the scene is
  unchanged.  The context-restored handler clears the flag and recomputes the renderer
  settings from the stored configuration and from the window as it is at that moment:
  the size is the window's inner size, the pixel ratio is the window's device pixel ratio
  (capped by a non-zero \<^verbatim>\<open>maxPixelRatio\<close>), and the shadow-map settings are the ones
  before the loss.  When the window is the same throughout (at construction, at every
  resize and at the restoration) all renderer settings equal the ones before the loss.
  A callback after the restoration that passes the context check and the pacing issues
  the draw call.
\<close>
theorem context_loss_and_restoration:
  assumes quiet: "list_all (\<lambda>e. \<not> is_restore e) es"
  shows "let pre = exec es0 (Engine_constructor cfg w);
             lost = exec es (onContextLost pre);
             restored = onContextRestored w' lost
         in isContextLost lost \<and> scene lost = scene pre
          \<and> (\<exists>new. effects lost = effects pre @ new \<and> list_all idle_effect new)
          \<and> \<not> isContextLost restored
          \<and> r_width (renderer restored) = innerWidth w' \<and> r_height (renderer restored) = innerHeight w'
          \<and> r_pixelRatio (renderer restored) =
               (if truthy (maxPixelRatio cfg) then min (devicePixelRatio w') (the (maxPixelRatio cfg))
                else devicePixelRatio w')
          \<and> shadowMap_enabled (renderer restored) = shadowMap_enabled (renderer pre)
          \<and> shadowMap_type (renderer restored) = shadowMap_type (renderer pre)
          \<and> (list_all (window_is w) (es0 @ es) \<and> w' = w \<longrightarrow> renderer restored = renderer pre)
          \<and> (\<forall>time p. animationId restored \<noteq> None \<and> \<not> ctx_null p \<and> \<not> ctx_lost p
                \<and> \<not> time - lastFrameTime restored < frameInterval restored
              \<longrightarrow> (\<exists>mid rest. effects (step (Tick time p) restored)
                     = effects restored @ RequestAnimationFrame (raf_id p) # mid
                       @ ResetMouseDelta # RendererRender # rest))"
proof -
  let ?init = "Engine_constructor cfg w"
  let ?pre = "exec es0 ?init"
  let ?lost = "exec es (onContextLost ?pre)"
  let ?restored = "onContextRestored w' ?lost"
  have l0: "isContextLost (onContextLost ?pre)" "scene (onContextLost ?pre) = scene ?pre"
    "effects (onContextLost ?pre) = effects ?pre @ [PreventDefault, ConsoleWarn ''[Engine] WebGL context lost'']"
    by (simp_all add: onContextLost_def emit_def)
  from lost_exec [OF l0(1) quiet] obtain n where
    n: "isContextLost ?lost" "scene ?lost = scene (onContextLost ?pre)"
       "effects ?lost = effects (onContextLost ?pre) @ n" "list_all idle_effect n" by blast
  have "effects ?lost = effects ?pre @ ([PreventDefault, ConsoleWarn ''[Engine] WebGL context lost''] @ n)"
    "list_all idle_effect ([PreventDefault, ConsoleWarn ''[Engine] WebGL context lost''] @ n)"
    using n(3,4) l0(3) by simp_all
  then have p1: "\<exists>new. effects ?lost = effects ?pre @ new \<and> list_all idle_effect new" by blast
  have p0: "isContextLost ?lost" "scene ?lost = scene ?pre" using n(1,2) l0(2) by simp_all
  have cfg_init: "config ?init = cfg" by (simp add: Engine_constructor_def Let_def)
  have cfg_pre: "config ?pre = cfg" using static_exec [of es0 ?init] cfg_init by simp
  have cfg_lost: "config ?lost = cfg"
    using static_exec [of es "onContextLost ?pre"] cfg_pre by (simp add: onContextLost_def emit_def)
  have ren_lost0: "renderer (onContextLost ?pre) = renderer ?pre"
    by (simp add: onContextLost_def emit_def)
  have st_init: "same_static (renderer ?init) (renderer (Engine_constructor (config ?init) w))"
    unfolding cfg_init by (rule static_constructor)
  have st_pre: "same_static (renderer ?pre) (renderer (Engine_constructor cfg w))"
    using static_inv_exec [OF st_init, of es0] cfg_pre by simp
  have "same_static (renderer (onContextLost ?pre)) (renderer (Engine_constructor (config (onContextLost ?pre)) w))"
    using st_pre cfg_pre by (simp add: onContextLost_def emit_def)
  from static_inv_exec [OF this, of es]
  have st_lost: "same_static (renderer ?lost) (renderer (Engine_constructor (config ?lost) w))" .
  have ren_restored: "renderer ?restored = renderer (Engine_constructor cfg w')"
    using restored_renderer [OF st_lost, of w'] cfg_lost by simp
  have st_restored: "same_static (renderer ?restored) (renderer (Engine_constructor cfg w))"
    unfolding ren_restored by (rule static_constructor)
  have p2: "\<not> isContextLost ?restored" "r_width (renderer ?restored) = innerWidth w'"
    "r_height (renderer ?restored) = innerHeight w'"
    "r_pixelRatio (renderer ?restored) =
       (if truthy (maxPixelRatio cfg) then min (devicePixelRatio w') (the (maxPixelRatio cfg))
        else devicePixelRatio w')"
    using restored_settings(1-4) [of w' ?lost] cfg_lost by simp_all
  have p3: "shadowMap_enabled (renderer ?restored) = shadowMap_enabled (renderer ?pre)"
    "shadowMap_type (renderer ?restored) = shadowMap_type (renderer ?pre)"
    using st_restored st_pre by (simp_all add: same_static_def)
  have p4: "renderer ?restored = renderer ?pre" if h: "list_all (window_is w) (es0 @ es) \<and> w' = w"
  proof -
    from h have a: "list_all (window_is w) es0" "list_all (window_is w) es" "w' = w" by simp_all
    have i: "renderer ?init = renderer (Engine_constructor (config ?init) w)" by (simp add: cfg_init)
    have r1: "renderer ?pre = renderer ?init" by (rule fixed_exec [OF i a(1)])
    show ?thesis using ren_restored r1 a(3) by simp
  qed
  have p5: "\<exists>mid rest. effects (step (Tick time p) ?restored)
                     = effects ?restored @ RequestAnimationFrame (raf_id p) # mid
                       @ ResetMouseDelta # RendererRender # rest"
    if h: "animationId ?restored \<noteq> None \<and> \<not> ctx_null p \<and> \<not> ctx_lost p
                \<and> \<not> time - lastFrameTime ?restored < frameInterval ?restored" for time p
  proof -
    from h have g: "\<not> ctx_null p" "\<not> ctx_lost p" "\<not> time - lastFrameTime ?restored < frameInterval ?restored"
      and a: "animationId ?restored \<noteq> None" by simp_all
    from animate_advance(1) [OF p2(1) g] a show ?thesis by auto
  qed
  show ?thesis unfolding Let_def using p0 p1 p2 p3 p4 p5 by blast
qed

subsection \<open>Concrete runs\<close>

text \<open>An order of two ingredients: accepted in order, rejected when swapped, when too short, and once fulfilled.\<close>

theorem validateOrder_iff_witness:
  "validateOrder (Customer_constructor (Vector3 0 0 0) \<lparr>ingredients = [LETTUCE, BACON]\<rparr>) [LETTUCE, BACON]
   \<and> \<not> validateOrder (Customer_constructor (Vector3 0 0 0) \<lparr>ingredients = [LETTUCE, BACON]\<rparr>) [BACON, LETTUCE]
   \<and> \<not> validateOrder (Customer_constructor (Vector3 0 0 0) \<lparr>ingredients = [LETTUCE, BACON]\<rparr>) [LETTUCE]
   \<and> \<not> validateOrder (fulfillOrder (Customer_constructor (Vector3 0 0 0) \<lparr>ingredients = [LETTUCE, BACON]\<rparr>)) [LETTUCE, BACON]"
  using validateOrder_iff [of "Customer_constructor (Vector3 0 0 0) \<lparr>ingredients = [LETTUCE, BACON]\<rparr>" "[LETTUCE, BACON]"]
    validateOrder_iff [of "Customer_constructor (Vector3 0 0 0) \<lparr>ingredients = [LETTUCE, BACON]\<rparr>" "[BACON, LETTUCE]"]
    validateOrder_iff [of "Customer_constructor (Vector3 0 0 0) \<lparr>ingredients = [LETTUCE, BACON]\<rparr>" "[LETTUCE]"]
    validateOrder_iff [of "fulfillOrder (Customer_constructor (Vector3 0 0 0) \<lparr>ingredients = [LETTUCE, BACON]\<rparr>)" "[LETTUCE, BACON]"]
  by (auto simp: Customer_constructor_def fulfillOrder_def less_Suc_eq numeral_2_eq_2)

text \<open>A run whose timestamps decrease from 100 to 50: that callback is skipped by the pacing, and the next delta is positive.\<close>

theorem delta_nonneg_witness:
  "GameUpdate gameA (1 / 10) \<in> set (effects (exec
      [Run gameA probe_ok, Tick 100 probe_ok, Tick 50 probe_ok, Tick 200 probe_ok]
      (Engine_constructor config_desktop window_plain)))
   \<and> (0::real) \<le> 1 / 10"
proof -
  have h: "GameUpdate gameA (1 / 10) \<in> set (effects (exec
      [Run gameA probe_ok, Tick 100 probe_ok, Tick 50 probe_ok, Tick 200 probe_ok]
      (Engine_constructor config_desktop window_plain)))"
    by (simp add: concrete)
  from delta_nonneg [OF h] h show ?thesis by simp
qed

text \<open>The first callback that advances comes at timestamp 12345 and passes the delta 0.\<close>

theorem first_delta_zero_witness:
  "first_update (drop (length (effects (Engine_constructor config_desktop window_plain)))
     (effects (exec [Tick 5 probe_ok, Tick 12345 probe_ok, Tick 12400 probe_ok]
        (run gameA probe_ok (Engine_constructor config_desktop window_plain))))) = Some 0"
  using first_delta_zero [of "Engine_constructor config_desktop window_plain"
      "[Tick 5 probe_ok, Tick 12345 probe_ok, Tick 12400 probe_ok]" gameA probe_ok]
  by (simp add: concrete)

text \<open>Two games started one after the other on a new engine.\<close>

theorem restart_disposes_once_witness:
  "game (Engine_constructor config_desktop window_plain) = None \<and> gameA \<noteq> gameB
   \<and> count_list (drop (length (effects (Engine_constructor config_desktop window_plain)))
        (effects (exec [Tick 200 probe_ok]
           (run gameB probe_ok (exec [Tick 100 probe_ok, ContextLost]
              (run gameA probe_ok (Engine_constructor config_desktop window_plain)))))))
        (GameDispose gameA) = 1"
proof -
  have h1: "game (Engine_constructor config_desktop window_plain) = None"
    by (simp add: Engine_constructor_def Let_def)
  have h2: "gameA \<noteq> gameB" by (simp add: gameA_def gameB_def)
  have h3: "list_all (\<lambda>e. \<not> is_lifecycle e) [Tick 100 probe_ok, ContextLost]" by simp
  have h4: "list_all (\<lambda>e. \<not> is_lifecycle e) [Tick 200 probe_ok]" by simp
  from restart_disposes_once [OF h1 h2 h3 h4, of probe_ok probe_ok] h1 h2
  show ?thesis by (simp add: Let_def)
qed

text \<open>A draw call that throws on a live context, in the first advancing callback of a session.\<close>

theorem render_failure_swallowed_witness:
  "\<not> isContextLost (run gameA probe_ok (Engine_constructor config_desktop window_plain))
   \<and> render_throws probe_throw
   \<and> \<not> 100 - lastFrameTime (run gameA probe_ok (Engine_constructor config_desktop window_plain))
         < frameInterval (run gameA probe_ok (Engine_constructor config_desktop window_plain))
   \<and> effects (animate 100 probe_throw (run gameA probe_ok (Engine_constructor config_desktop window_plain)))
       = effects (animate 100 (probe_throw\<lparr>render_throws := False\<rparr>)
           (run gameA probe_ok (Engine_constructor config_desktop window_plain)))
         @ [ConsoleError ''[Engine] Rendering error:'']
   \<and> \<not> isContextLost (animate 100 probe_throw (run gameA probe_ok (Engine_constructor config_desktop window_plain)))"
proof -
  let ?s = "run gameA probe_ok (Engine_constructor config_desktop window_plain)"
  have h1: "\<not> isContextLost ?s" by (simp add: concrete)
  have h2: "\<not> ctx_null probe_throw" "\<not> ctx_lost probe_throw" by (simp_all add: probe_throw_def)
  have h3: "\<not> 100 - lastFrameTime ?s < frameInterval ?s" by (simp add: concrete)
  have h4: "render_throws probe_throw" by (simp add: probe_throw_def)
  have h5: "\<not> ctx_lost_catch probe_throw" "\<not> ctx_null_recheck probe_throw"
    "\<not> ctx_lost_recheck probe_throw" by (simp_all add: probe_throw_def)
  from render_failure_swallowed [OF h1 h2 h3 h4 h5] h1 h3 h4
  show ?thesis by (simp add: Let_def)
qed

text \<open>A callback 5 ms after the start does not advance; one at 110 ms advances and sets the pacing timestamp to 100.\<close>

theorem frame_pacing_witness:
  "5 - lastFrameTime (run gameA probe_ok (Engine_constructor config_desktop window_plain))
     < frameInterval (run gameA probe_ok (Engine_constructor config_desktop window_plain))
   \<and> lastFrameTime (animate 5 probe_ok (run gameA probe_ok (Engine_constructor config_desktop window_plain))) = 0
   \<and> \<not> 110 - lastFrameTime (run gameA probe_ok (Engine_constructor config_desktop window_plain))
         < frameInterval (run gameA probe_ok (Engine_constructor config_desktop window_plain))
   \<and> lastFrameTime (animate 110 probe_ok (run gameA probe_ok (Engine_constructor config_desktop window_plain))) = 100"
proof -
  let ?s = "run gameA probe_ok (Engine_constructor config_desktop window_plain)"
  have a: "5 - lastFrameTime ?s < frameInterval ?s" "lastFrameTime ?s = 0" by (simp_all add: concrete)
  have b: "\<not> 110 - lastFrameTime ?s < frameInterval ?s" "\<not> isContextLost ?s"
    "\<not> ctx_null probe_ok" "\<not> ctx_lost probe_ok"
    "110 - js_rem (110 - lastFrameTime ?s) (frameInterval ?s) = 100"
    by (simp_all add: concrete)
  from frame_pacing [of 5 ?s probe_ok] a
  have 1: "lastFrameTime (animate 5 probe_ok ?s) = 0" by simp
  from frame_pacing [of 110 ?s probe_ok] b
  have 2: "lastFrameTime (animate 110 probe_ok ?s) = 100" by simp
  from a(1) b(1) 1 2 show ?thesis by simp
qed

text \<open>With the lost flag set, a callback a full interval after the pacing timestamp requests the next frame and does nothing else: the pacing timestamp stays 0 where the pacing rule alone would make it 100.\<close>

theorem frame_pacing_context_lost_counterexample:
  "\<not> 110 - lastFrameTime (onContextLost (run gameA probe_ok (Engine_constructor config_desktop window_plain)))
       < frameInterval (onContextLost (run gameA probe_ok (Engine_constructor config_desktop window_plain)))
   \<and> effects (animate 110 probe_ok (onContextLost (run gameA probe_ok (Engine_constructor config_desktop window_plain))))
       = effects (onContextLost (run gameA probe_ok (Engine_constructor config_desktop window_plain)))
         @ [RequestAnimationFrame 1]
   \<and> lastFrameTime (animate 110 probe_ok (onContextLost (run gameA probe_ok (Engine_constructor config_desktop window_plain)))) = 0
   \<and> 110 - js_rem (110 - lastFrameTime (onContextLost (run gameA probe_ok (Engine_constructor config_desktop window_plain))))
              (frameInterval (onContextLost (run gameA probe_ok (Engine_constructor config_desktop window_plain)))) = (100::real)"
  by (simp add: concrete)

text \<open>The device pixel ratio of the window is 1 at construction and 2 at the restoration: the renderer has pixel ratio 1 before the loss and 2 after the restoration.\<close>

theorem context_restoration_counterexample:
  "r_pixelRatio (renderer (exec [Run gameA probe_ok, Tick 100 probe_ok]
      (Engine_constructor config_desktop window_plain))) = 1
   \<and> r_pixelRatio (renderer (exec [Run gameA probe_ok, Tick 100 probe_ok, ContextLost, ContextRestored window_zoomed]
      (Engine_constructor config_desktop window_plain))) = 2"
  by (simp add: concrete)

text \<open>A loss and a restoration under an unchanged window, on a configuration with a pixel-ratio cap.\<close>

theorem context_loss_and_restoration_witness:
  "list_all (\<lambda>e. \<not> is_restore e) [Tick 200 probe_ok, Resize window_plain, Tick 300 probe_ok]
   \<and> isContextLost (exec [Tick 200 probe_ok, Resize window_plain, Tick 300 probe_ok]
        (onContextLost (exec [Run gameA probe_ok, Tick 100 probe_ok] (Engine_constructor config_mobile window_plain))))
   \<and> renderer (onContextRestored window_plain (exec [Tick 200 probe_ok, Resize window_plain, Tick 300 probe_ok]
        (onContextLost (exec [Run gameA probe_ok, Tick 100 probe_ok] (Engine_constructor config_mobile window_plain)))))
      = renderer (exec [Run gameA probe_ok, Tick 100 probe_ok] (Engine_constructor config_mobile window_plain))"
proof -
  have q: "list_all (\<lambda>e. \<not> is_restore e) [Tick 200 probe_ok, Resize window_plain, Tick 300 probe_ok]"
    by simp
  have f: "list_all (window_is window_plain)
             ([Run gameA probe_ok, Tick 100 probe_ok] @ [Tick 200 probe_ok, Resize window_plain, Tick 300 probe_ok])
           \<and> window_plain = window_plain"
    by simp
  note th = context_loss_and_restoration [OF q, of "[Run gameA probe_ok, Tick 100 probe_ok]"
      config_mobile window_plain window_plain, unfolded Let_def]
  from th f q show ?thesis by blast
qed

end
